theory Spec2Isabelle
  imports Main "HOL-Library.Word"
begin

unbundle bit_operations_syntax

section \<open>Configuration constants\<close>

text \<open>
  Modelled from the spec: \<^verbatim>\<open>simulation.c\<close> includes \<^verbatim>\<open>config.h\<close>, which is not
  part of the sources. Its six macros are taken as the fields of a parameter record, under
  the names the C code uses them by.
\<close>

record config =
  BLOCKS_SIZE :: nat
  BLOCKS_SIZE_N :: nat
  NB_BLOCKS :: nat
  NB_BLOCKS_N :: nat
  ASSOCIATIVITY :: nat
  PREFETCHING :: bool

text \<open>
  Modelled from the spec: the block size and the number of sets are powers of two whose
  exponents are \<^verbatim>\<open>BLOCKS_SIZE_N\<close> and \<^verbatim>\<open>NB_BLOCKS_N\<close>, and the associativity is
  positive. The two bounds by 31 are what C needs for \<^verbatim>\<open>1 << n\<close> to be defined on a
  32-bit \<^verbatim>\<open>int\<close>.
\<close>

definition config_ok :: "config \<Rightarrow> bool" where
  "config_ok cfg \<longleftrightarrow>
     BLOCKS_SIZE cfg = 2 ^ BLOCKS_SIZE_N cfg \<and>
     NB_BLOCKS cfg = 2 ^ NB_BLOCKS_N cfg \<and>
     0 < ASSOCIATIVITY cfg \<and>
     BLOCKS_SIZE_N cfg < 31 \<and>
     NB_BLOCKS_N cfg < 31"

section \<open>Data\<close>

text \<open>
  \<^verbatim>\<open>struct line\<close>: the three \<^verbatim>\<open>unsigned long\<close> fields are 64-bit words (LP64) and
  \<^verbatim>\<open>time_t last_access\<close> is an integer number of seconds, only ever copied and
  compared. The payload \<^verbatim>\<open>buff\<close> is never read and is left out.
\<close>

record line =
  index :: "64 word"
  offset :: "64 word"
  tag :: "64 word"
  last_access :: int

type_synonym blocks = "line list"
type_synonym cache = "blocks list"

record action =
  rw :: char
  address :: "64 word"

section \<open>Address decomposition\<close>

text \<open>
  \<^verbatim>\<open>(1 << n) - 1\<close> is computed on \<^verbatim>\<open>int\<close> and then converted to
  \<^verbatim>\<open>unsigned long\<close> for the bitwise and with the address: a 32-bit signed word,
  sign-extended to 64 bits.
\<close>

definition int_mask :: "nat \<Rightarrow> 64 word" where
  "int_mask n = scast (push_bit n (1 :: 32 word) - 1)"

text \<open>
  \<^verbatim>\<open>line_from_address\<close>; the value \<open>now\<close> is what its call of \<^verbatim>\<open>time(NULL)\<close>
  returns.
\<close>

definition line_from_address :: "config \<Rightarrow> int \<Rightarrow> 64 word \<Rightarrow> line" where
  "line_from_address cfg now a =
     \<lparr> index = drop_bit (BLOCKS_SIZE_N cfg) a AND int_mask (NB_BLOCKS_N cfg),
       offset = a AND int_mask (BLOCKS_SIZE_N cfg),
       tag = drop_bit (BLOCKS_SIZE_N cfg + NB_BLOCKS_N cfg) a,
       last_access = now \<rparr>"

section \<open>Lookup\<close>

text \<open>
  \<^verbatim>\<open>in_cache\<close> walks the lines \<^verbatim>\<open>c[l.index][0 .. ASSOCIATIVITY-1]\<close> in order and
  returns 1 at the first one whose tag equals \<^verbatim>\<open>l.tag\<close>, 0 when the loop ends. The
  walk is a recursion over the lines of the set.
\<close>

primrec tag_scan :: "blocks \<Rightarrow> 64 word \<Rightarrow> bool" where
  "tag_scan [] t = False"
| "tag_scan (x # xs) t = (if tag x = t then True else tag_scan xs t)"

definition in_cache :: "config \<Rightarrow> cache \<Rightarrow> line \<Rightarrow> bool" where
  "in_cache cfg c l = tag_scan (take (ASSOCIATIVITY cfg) (c ! unat (index l))) (tag l)"

section \<open>Insertion\<close>

text \<open>
  The loop of \<^verbatim>\<open>add_to_cache\<close>, as the position that ends up overwritten. The
  arguments after the lines still to visit are the loop variables \<^verbatim>\<open>i\<close>,
  \<^verbatim>\<open>oldest\<close> and \<^verbatim>\<open>oldest_time\<close>. The variable \<^verbatim>\<open>oldest\<close> is declared without
  an initial value, which is \<open>None\<close> here; it receives one only in the branch that finds
  a line strictly older than \<^verbatim>\<open>oldest_time\<close>. A line whose tag is \<^verbatim>\<open>0x00\<close> is taken
  as empty and ends the loop.
\<close>

fun find_slot :: "blocks \<Rightarrow> nat \<Rightarrow> nat option \<Rightarrow> int \<Rightarrow> nat option" where
  "find_slot [] i oldest oldest_time = oldest"
| "find_slot (x # xs) i oldest oldest_time =
     (if tag x = 0 then Some i
      else if last_access x < oldest_time
        then find_slot xs (Suc i) (Some i) (last_access x)
        else find_slot xs (Suc i) oldest oldest_time)"

text \<open>
  Using \<^verbatim>\<open>oldest\<close> as an array index while it has no value is undefined behaviour in
  C; the model reports it as an error value.
\<close>

datatype error = Uninitialised_oldest

text \<open>
  \<^verbatim>\<open>add_to_cache\<close>; \<open>now\<close> is what its call of \<^verbatim>\<open>time(NULL)\<close> returns, the
  seed of \<^verbatim>\<open>oldest_time\<close>. Both assignments \<^verbatim>\<open>c[l.index][i] = l\<close> and
  \<^verbatim>\<open>c[l.index][oldest] = l\<close> are the one list update.
\<close>

definition add_to_cache :: "config \<Rightarrow> int \<Rightarrow> cache \<Rightarrow> line \<Rightarrow> error + cache" where
  "add_to_cache cfg now c l =
     (case find_slot (take (ASSOCIATIVITY cfg) (c ! unat (index l))) 0 None now of
        None \<Rightarrow> Inl Uninitialised_oldest
      | Some j \<Rightarrow> Inr (c[unat (index l) := (c ! unat (index l))[j := l]]))"

section \<open>The simulation driver\<close>

text \<open>
  The state of the loop in \<^verbatim>\<open>execute_mem\<close>: the cache, the two \<^verbatim>\<open>unsigned int\<close>
  counters, and the number of calls of \<^verbatim>\<open>time(NULL)\<close> made so far. The wall clock is a
  parameter \<open>clk\<close> of the driver: \<open>clk k\<close> is the value the \<open>k\<close>-th call returns.
\<close>

record sim =
  store :: cache
  hits :: "32 word"
  misses :: "32 word"
  ticks :: nat

text \<open>The body of the loop over the actions (lines 197 to 210), for the address \<open>a\<close>.\<close>

definition access :: "config \<Rightarrow> (nat \<Rightarrow> int) \<Rightarrow> sim \<Rightarrow> 64 word \<Rightarrow> error + sim" where
  "access cfg clk s a =
     (let l = line_from_address cfg (clk (ticks s)) a in
      if in_cache cfg (store s) l then
        Inr (s\<lparr>hits := hits s + 1, ticks := ticks s + 1\<rparr>)
      else
        case add_to_cache cfg (clk (ticks s + 1)) (store s) l of
          Inl e \<Rightarrow> Inl e
        | Inr c1 \<Rightarrow>
            if PREFETCHING cfg then
              (let l2 = line_from_address cfg (clk (ticks s + 2))
                          (a + of_nat (BLOCKS_SIZE cfg)) in
               if \<not> in_cache cfg c1 l2 then
                 (case add_to_cache cfg (clk (ticks s + 3)) c1 l2 of
                    Inl e \<Rightarrow> Inl e
                  | Inr c2 \<Rightarrow>
                      Inr (s\<lparr>store := c2, misses := misses s + 1 + 1,
                             ticks := ticks s + 4\<rparr>))
               else Inr (s\<lparr>store := c1, misses := misses s + 1, ticks := ticks s + 3\<rparr>))
            else Inr (s\<lparr>store := c1, misses := misses s + 1, ticks := ticks s + 2\<rparr>))"

text \<open>
  The loop itself. The list holds the records of the array \<^verbatim>\<open>actions\<close> in order; the
  loop stops at the first record whose \<^verbatim>\<open>rw\<close> is the NUL character, the delimiter
  that \<^verbatim>\<open>read_action_from_file\<close> writes after the last record read, and the end of
  the list stands for that delimiter when the list does not hold it.
\<close>

fun replay :: "config \<Rightarrow> (nat \<Rightarrow> int) \<Rightarrow> sim \<Rightarrow> action list \<Rightarrow> error + sim" where
  "replay cfg clk s [] = Inr s"
| "replay cfg clk s (r # rs) =
     (if rw r = CHR 0x00 then Inr s
      else case access cfg clk s (address r) of
             Inl e \<Rightarrow> Inl e
           | Inr s' \<Rightarrow> replay cfg clk s' rs)"

text \<open>
  \<^verbatim>\<open>calloc\<close> fills every line of every set with zero bytes. (Allocation is taken to
  succeed; on failure the program exits before any record is read.)
\<close>

definition zero_line :: line where
  "zero_line = \<lparr> index = 0, offset = 0, tag = 0, last_access = 0 \<rparr>"

definition fresh_cache :: "config \<Rightarrow> cache" where
  "fresh_cache cfg = replicate (NB_BLOCKS cfg) (replicate (ASSOCIATIVITY cfg) zero_line)"

definition initial :: "config \<Rightarrow> sim" where
  "initial cfg = \<lparr> store = fresh_cache cfg, hits = 0, misses = 0, ticks = 0 \<rparr>"

text \<open>
  The shape \<^verbatim>\<open>execute_mem\<close> allocates: \<^verbatim>\<open>NB_BLOCKS\<close> sets of
  \<^verbatim>\<open>ASSOCIATIVITY\<close> lines each. Inside this shape every \<^verbatim>\<open>c[l.index][i]\<close> of
  the two loops is within the arrays.
\<close>

definition cache_ok :: "config \<Rightarrow> cache \<Rightarrow> bool" where
  "cache_ok cfg c \<longleftrightarrow>
     length c = NB_BLOCKS cfg \<and> list_all (\<lambda>s. length s = ASSOCIATIVITY cfg) c"

text \<open>\<^verbatim>\<open>execute_mem\<close>, returning the two numbers it prints.\<close>

definition execute_mem :: "config \<Rightarrow> (nat \<Rightarrow> int) \<Rightarrow> action list \<Rightarrow> error + 32 word \<times> 32 word" where
  "execute_mem cfg clk actions =
     (case replay cfg clk (initial cfg) actions of
        Inl e \<Rightarrow> Inl e
      | Inr s \<Rightarrow> Inr (hits s, misses s))"

text \<open>The records the loop processes: those before the delimiter.\<close>

definition processed :: "action list \<Rightarrow> action list" where
  "processed actions = takeWhile (\<lambda>r. rw r \<noteq> CHR 0x00) actions"

text \<open>The configuration of the example in the header comment and of the spec's scenario.\<close>

definition example_config :: config where
  "example_config =
     \<lparr> BLOCKS_SIZE = 128, BLOCKS_SIZE_N = 7, NB_BLOCKS = 2, NB_BLOCKS_N = 1,
       ASSOCIATIVITY = 4, PREFETCHING = False \<rparr>"

definition rd :: "64 word \<Rightarrow> action" where
  "rd a = \<lparr> rw = CHR ''R'', address = a \<rparr>"

text \<open>Concrete caches and states used to evaluate the code below.\<close>

definition full_set :: blocks where
  "full_set =
     [\<lparr> index = 0, offset = 0, tag = 1, last_access = 1000 \<rparr>,
      \<lparr> index = 0, offset = 0, tag = 2, last_access = 1000 \<rparr>,
      \<lparr> index = 0, offset = 0, tag = 3, last_access = 1000 \<rparr>,
      \<lparr> index = 0, offset = 0, tag = 4, last_access = 1000 \<rparr>]"

text \<open>
  A full set of the example configuration in which the block with tag 0 is cached, and is
  the most recently inserted line.
\<close>

definition zero_tag_set :: blocks where
  "zero_tag_set =
     [\<lparr> index = 0, offset = 0, tag = 1, last_access = 10 \<rparr>,
      \<lparr> index = 0, offset = 0, tag = 0, last_access = 30 \<rparr>,
      \<lparr> index = 0, offset = 0, tag = 2, last_access = 20 \<rparr>,
      \<lparr> index = 0, offset = 0, tag = 3, last_access = 20 \<rparr>]"

definition warm :: sim where
  "warm = \<lparr> store = [[\<lparr> index = 0, offset = 0, tag = 1, last_access = 7 \<rparr>,
                       zero_line, zero_line, zero_line],
                      replicate 4 zero_line],
            hits = 0, misses = 1, ticks = 2 \<rparr>"

definition prefetch_config :: config where
  "prefetch_config = example_config\<lparr>PREFETCHING := True\<rparr>"

text \<open>
  The state after the four records \<^verbatim>\<open>0x180, 0x100, 0x280, 0x380\<close> with prefetching
  on and a clock that advances by one second at every call: set 0 is full, and the last
  line of set 1 is still as \<^verbatim>\<open>calloc\<close> left it.
\<close>

definition before_zero :: sim where
  "before_zero =
     \<lparr> store =
         [[\<lparr> index = 0, offset = 0, tag = 2, last_access = 2 \<rparr>,
           \<lparr> index = 0, offset = 0, tag = 1, last_access = 4 \<rparr>,
           \<lparr> index = 0, offset = 0, tag = 3, last_access = 9 \<rparr>,
           \<lparr> index = 0, offset = 0, tag = 4, last_access = 13 \<rparr>],
          [\<lparr> index = 1, offset = 0, tag = 1, last_access = 0 \<rparr>,
           \<lparr> index = 1, offset = 0, tag = 2, last_access = 7 \<rparr>,
           \<lparr> index = 1, offset = 0, tag = 3, last_access = 11 \<rparr>,
           zero_line]],
       hits = 0, misses = 7, ticks = 15 \<rparr>"

section \<open>Facts about words\<close>

lemma int_mask_eq: "n < 31 \<Longrightarrow> int_mask n = mask n"
  unfolding int_mask_def
  by (rule bit_word_eqI) (auto simp add: bit_simps simp flip: mask_eq_exp_minus_1)

lemma unat_and_mask: "unat (a AND mask n :: 64 word) = unat a mod 2 ^ n"
  by (metis unsigned_take_bit_eq take_bit_eq_mask take_bit_eq_mod)

lemma unat_drop_bit_div: "unat (drop_bit n a :: 64 word) = unat a div 2 ^ n"
proof -
  have "unat (drop_bit n a) = drop_bit n (unat a)" by (rule unat_drop_bit_eq)
  then show ?thesis by (simp only: drop_bit_eq_div)
qed

lemma pow2_minus_1: "(of_nat (2 ^ n) - 1 :: 64 word) = mask n"
  by (simp add: mask_eq_exp_minus_1)

lemma recombine:
  "push_bit (n + m) (drop_bit (n + m) a) OR push_bit n (drop_bit n a AND mask m)
     OR (a AND mask n) = (a :: 64 word)"
proof (rule bit_word_eqI)
  fix k
  assume len: "k < LENGTH(64)"
  consider "k < n" | "n \<le> k" "k < n + m" | "n + m \<le> k" by linarith
  then show "bit (push_bit (n + m) (drop_bit (n + m) a) OR push_bit n (drop_bit n a AND mask m)
                 OR (a AND mask n)) k = bit a k"
  proof cases
    case 1
    with len show ?thesis by (auto simp add: bit_simps)
  next
    case 2
    with len show ?thesis by (auto simp add: bit_simps)
  next
    case 3
    with len show ?thesis by (auto simp add: bit_simps)
  qed
qed

lemma index_in_range:
  assumes "config_ok cfg"
  shows "unat (index (line_from_address cfg now a)) < NB_BLOCKS cfg"
proof -
  from assms have n: "NB_BLOCKS_N cfg < 31" and nb: "NB_BLOCKS cfg = 2 ^ NB_BLOCKS_N cfg"
    by (simp_all add: config_ok_def)
  have "unat (drop_bit (BLOCKS_SIZE_N cfg) a AND mask (NB_BLOCKS_N cfg)) < 2 ^ NB_BLOCKS_N cfg"
    by (simp only: unat_and_mask) simp
  with n nb show ?thesis
    by (simp add: line_from_address_def int_mask_eq)
qed

lemma fields_mask:
  assumes "config_ok cfg"
  shows "offset (line_from_address cfg now a) = a AND mask (BLOCKS_SIZE_N cfg)"
    and "index (line_from_address cfg now a) =
      drop_bit (BLOCKS_SIZE_N cfg) a AND mask (NB_BLOCKS_N cfg)"
    and "tag (line_from_address cfg now a) = drop_bit (BLOCKS_SIZE_N cfg + NB_BLOCKS_N cfg) a"
  using assms by (simp_all add: config_ok_def line_from_address_def int_mask_eq)

lemma example_config_ok: "config_ok example_config"
  by (simp add: config_ok_def example_config_def)

section \<open>Address decomposition: the proved claims\<close>

text \<open>
  Claim C8. For a configuration whose sizes are the powers of two of their bit counts,
  \<^verbatim>\<open>line_from_address\<close> computes offset = address AND (block size - 1),
  index = (address >> offset bits) AND (number of sets - 1) and
  tag = address >> (offset bits + index bits), for every 64-bit address. The three fields
  are 64-bit values and nothing is cut off: read as numbers they are
  address mod block size, (address div block size) mod number of sets and
  address div (block size * number of sets). The function is total, so no address is
  rejected.
\<close>

theorem decompose_formulas:
  assumes "config_ok cfg"
  shows "offset (line_from_address cfg now a) = a AND (of_nat (BLOCKS_SIZE cfg) - 1)
    \<and> index (line_from_address cfg now a) =
        drop_bit (BLOCKS_SIZE_N cfg) a AND (of_nat (NB_BLOCKS cfg) - 1)
    \<and> tag (line_from_address cfg now a) = drop_bit (BLOCKS_SIZE_N cfg + NB_BLOCKS_N cfg) a
    \<and> unat (offset (line_from_address cfg now a)) = unat a mod BLOCKS_SIZE cfg
    \<and> unat (index (line_from_address cfg now a)) =
        unat a div BLOCKS_SIZE cfg mod NB_BLOCKS cfg
    \<and> unat (tag (line_from_address cfg now a)) = unat a div (BLOCKS_SIZE cfg * NB_BLOCKS cfg)"
proof -
  from assms have b: "BLOCKS_SIZE_N cfg < 31" "BLOCKS_SIZE cfg = 2 ^ BLOCKS_SIZE_N cfg"
    and n: "NB_BLOCKS_N cfg < 31" "NB_BLOCKS cfg = 2 ^ NB_BLOCKS_N cfg"
    by (simp_all add: config_ok_def)
  have o: "offset (line_from_address cfg now a) = a AND mask (BLOCKS_SIZE_N cfg)"
    using b by (simp add: line_from_address_def int_mask_eq)
  have i: "index (line_from_address cfg now a) =
      drop_bit (BLOCKS_SIZE_N cfg) a AND mask (NB_BLOCKS_N cfg)"
    using n by (simp add: line_from_address_def int_mask_eq)
  have t: "tag (line_from_address cfg now a) = drop_bit (BLOCKS_SIZE_N cfg + NB_BLOCKS_N cfg) a"
    by (simp add: line_from_address_def)
  have "offset (line_from_address cfg now a) = a AND (of_nat (BLOCKS_SIZE cfg) - 1)"
    by (simp only: o b(2) pow2_minus_1)
  moreover have "index (line_from_address cfg now a) =
        drop_bit (BLOCKS_SIZE_N cfg) a AND (of_nat (NB_BLOCKS cfg) - 1)"
    by (simp only: i n(2) pow2_minus_1)
  moreover have "unat (offset (line_from_address cfg now a)) = unat a mod BLOCKS_SIZE cfg"
    by (simp only: o b(2) unat_and_mask)
  moreover have "unat (index (line_from_address cfg now a)) =
        unat a div BLOCKS_SIZE cfg mod NB_BLOCKS cfg"
    by (simp only: i b(2) n(2) unat_and_mask unat_drop_bit_div)
  moreover have "unat (tag (line_from_address cfg now a)) =
        unat a div (BLOCKS_SIZE cfg * NB_BLOCKS cfg)"
    by (simp only: t b(2) n(2) unat_drop_bit_div power_add)
  ultimately show ?thesis using t by simp
qed

theorem decompose_formulas_witness:
  "config_ok example_config
    \<and> unat (offset (line_from_address example_config 0 0x123456789ABCDEF)) = 0x6F
    \<and> unat (index (line_from_address example_config 0 0x123456789ABCDEF)) = 1
    \<and> unat (tag (line_from_address example_config 0 0x123456789ABCDEF)) = 0x123456789ABCD"
  using decompose_formulas [of example_config 0 "0x123456789ABCDEF"]
  by (simp add: config_ok_def example_config_def)

text \<open>
  Claim C7. For such a configuration and every 64-bit address, putting the three fields
  back together as (tag << (offset bits + index bits)) OR (index << offset bits) OR offset
  gives the address again.
\<close>

theorem decompose_round_trip:
  assumes "config_ok cfg"
  shows "push_bit (BLOCKS_SIZE_N cfg + NB_BLOCKS_N cfg) (tag (line_from_address cfg now a))
       OR push_bit (BLOCKS_SIZE_N cfg) (index (line_from_address cfg now a))
       OR offset (line_from_address cfg now a) = a"
  by (simp only: fields_mask [OF assms] recombine)

theorem decompose_round_trip_witness:
  "config_ok example_config \<and>
   push_bit (BLOCKS_SIZE_N example_config + NB_BLOCKS_N example_config)
       (tag (line_from_address example_config 0 0x123456789ABCDEF))
     OR push_bit (BLOCKS_SIZE_N example_config)
       (index (line_from_address example_config 0 0x123456789ABCDEF))
     OR offset (line_from_address example_config 0 0x123456789ABCDEF) = 0x123456789ABCDEF"
  using decompose_round_trip [of example_config 0 "0x123456789ABCDEF"]
  by (simp add: config_ok_def example_config_def)

section \<open>The shape of the cache is kept\<close>

text \<open>
  The index of a decomposed address is below \<^verbatim>\<open>NB_BLOCKS\<close> (lemma
  \<open>index_in_range\<close>), the slot that \<^verbatim>\<open>add_to_cache\<close> overwrites is below
  \<^verbatim>\<open>ASSOCIATIVITY\<close>, and every cache reached from the allocated one has the allocated
  shape: no access of a run leaves the arrays.
\<close>

lemma fresh_cache_ok: "cache_ok cfg (fresh_cache cfg)"
  by (simp add: cache_ok_def fresh_cache_def list_all_iff)

lemma find_slot_in_range:
  "find_slot xs i old ot = Some j \<Longrightarrow> old = None \<or> (\<exists>p. old = Some p \<and> p < i) \<Longrightarrow>
   j < i + length xs"
proof (induction xs arbitrary: i old ot)
  case Nil
  then show ?case by auto
next
  case (Cons x xs)
  show ?case
  proof (cases "tag x = 0")
    case True
    with Cons.prems show ?thesis by simp
  next
    case False
    show ?thesis
    proof (cases "last_access x < ot")
      case True
      with False Cons.prems(1)
      have "find_slot xs (Suc i) (Some i) (last_access x) = Some j" by simp
      from Cons.IH [OF this] show ?thesis by simp
    next
      case nt: False
      with False Cons.prems(1) have f: "find_slot xs (Suc i) old ot = Some j" by simp
      from Cons.prems(2) have "old = None \<or> (\<exists>p. old = Some p \<and> p < Suc i)" by auto
      from Cons.IH [OF f this] show ?thesis by simp
    qed
  qed
qed

lemma add_to_cache_ok:
  assumes "cache_ok cfg c" and "add_to_cache cfg now c l = Inr c'"
  shows "cache_ok cfg c'"
proof -
  from assms(2) obtain j where
    c': "c' = c[unat (index l) := (c ! unat (index l))[j := l]]"
    by (auto simp add: add_to_cache_def split: option.splits)
  have "list_all (\<lambda>s. length s = ASSOCIATIVITY cfg) (c[k := (c ! k)[j := l]])"
    if "list_all (\<lambda>s. length s = ASSOCIATIVITY cfg) c" for k
    using that by (cases "k < length c") (auto simp add: list_all_length nth_list_update)
  with assms(1) show ?thesis by (simp add: cache_ok_def c')
qed

lemma add_to_cache_slot:
  assumes "cache_ok cfg c" and "unat (index l) < NB_BLOCKS cfg"
    and "add_to_cache cfg now c l = Inr c'"
  shows "\<exists>j < ASSOCIATIVITY cfg. c' = c[unat (index l) := (c ! unat (index l))[j := l]]"
proof -
  let ?s = "c ! unat (index l)"
  from assms(3) obtain j where f: "find_slot (take (ASSOCIATIVITY cfg) ?s) 0 None now = Some j"
    and c': "c' = c[unat (index l) := ?s[j := l]]"
    by (auto simp add: add_to_cache_def split: option.splits)
  from assms(1,2) have "length ?s = ASSOCIATIVITY cfg"
    by (simp add: cache_ok_def list_all_length)
  with find_slot_in_range [OF f] have "j < ASSOCIATIVITY cfg" by simp
  with c' show ?thesis by blast
qed

lemma access_ok:
  assumes "cache_ok cfg (store s)" and "access cfg clk s a = Inr s'"
  shows "cache_ok cfg (store s')"
proof (cases "in_cache cfg (store s) (line_from_address cfg (clk (ticks s)) a)")
  case True
  with assms show ?thesis by (auto simp add: access_def)
next
  case False
  with assms(2) obtain c1 where
    a1: "add_to_cache cfg (clk (ticks s + 1)) (store s)
           (line_from_address cfg (clk (ticks s)) a) = Inr c1"
    by (auto simp add: access_def Let_def split: sum.splits)
  have ok1: "cache_ok cfg c1" by (rule add_to_cache_ok [OF assms(1) a1])
  from assms(2) False a1 have "store s' = c1 \<or> (\<exists>now l2. add_to_cache cfg now c1 l2 = Inr (store s'))"
    by (auto simp add: access_def Let_def split: if_splits sum.splits)
  with ok1 show ?thesis by (auto dest: add_to_cache_ok)
qed

lemma replay_ok:
  "cache_ok cfg (store s) \<Longrightarrow> replay cfg clk s rs = Inr s' \<Longrightarrow> cache_ok cfg (store s')"
proof (induction rs arbitrary: s)
  case Nil
  then show ?case by simp
next
  case (Cons r rs)
  then show ?case
    by (auto split: if_splits sum.splits dest: access_ok)
qed

section \<open>Lookup: the claims\<close>

lemma tag_scan_iff: "tag_scan xs t \<longleftrightarrow> (\<exists>x \<in> set xs. tag x = t)"
  by (induction xs) auto

lemma fresh_set:
  "i < NB_BLOCKS cfg \<Longrightarrow> fresh_cache cfg ! i = replicate (ASSOCIATIVITY cfg) zero_line"
  by (simp add: fresh_cache_def)

lemma fresh_lookup_zero_tag:
  assumes "config_ok cfg" and "tag (line_from_address cfg now a) = 0"
  shows "in_cache cfg (fresh_cache cfg) (line_from_address cfg now a)"
proof -
  from assms(1) have pos: "0 < ASSOCIATIVITY cfg" by (simp add: config_ok_def)
  have "fresh_cache cfg ! unat (index (line_from_address cfg now a))
      = replicate (ASSOCIATIVITY cfg) zero_line"
    by (rule fresh_set) (rule index_in_range [OF assms(1)])
  with pos assms(2) show ?thesis
    by (simp add: in_cache_def tag_scan_iff zero_line_def)
qed

lemma tag_now: "tag (line_from_address cfg now a) = tag (line_from_address cfg now' a)"
  by (simp add: line_from_address_def)

text \<open>
  Claim C2. The lookup is to report a hit exactly when a valid line of the set holds the
  tag, with tag 0 an ordinary tag and validity kept apart from the tag. The code keeps no
  validity mark and \<^verbatim>\<open>in_cache\<close> compares tags only. In the cache as allocated, where
  set 0 consists of four lines that were never filled, the lookup of address 0 reports a
  hit. And \<^verbatim>\<open>add_to_cache\<close> takes a tag of 0 for the mark of an empty line: on a full
  set in which the block with tag 0 is cached and is the newest line, it overwrites that
  line, at position 1, not the oldest one at position 0.
\<close>

theorem lookup_hits_unfilled_line:
  "in_cache example_config (fresh_cache example_config) (line_from_address example_config 0 0)
   \<and> fresh_cache example_config ! 0 = [zero_line, zero_line, zero_line, zero_line]
   \<and> add_to_cache example_config 40 [zero_tag_set, replicate 4 zero_line]
         (line_from_address example_config 35 0x500)
       = Inr [zero_tag_set[1 := line_from_address example_config 35 0x500],
              replicate 4 zero_line]"
  by code_simp

text \<open>
  Claim C3. In the cache as \<^verbatim>\<open>calloc\<close> leaves it, the lookup of any address whose tag
  is 0 reports a hit; the first access to such an address adds one to the hit counter and
  leaves the cache as allocated.
\<close>

theorem fresh_cache_zero_tag_hits:
  assumes "config_ok cfg" and "tag (line_from_address cfg now a) = 0"
  shows "in_cache cfg (fresh_cache cfg) (line_from_address cfg now a)
     \<and> access cfg clk (initial cfg) a = Inr ((initial cfg)\<lparr>hits := 1, ticks := 1\<rparr>)
     \<and> store ((initial cfg)\<lparr>hits := 1, ticks := 1\<rparr>) = fresh_cache cfg"
proof -
  have t0: "tag (line_from_address cfg (clk 0) a) = 0"
    using assms(2) tag_now [of cfg now a "clk 0"] by simp
  have "in_cache cfg (fresh_cache cfg) (line_from_address cfg (clk 0) a)"
    by (rule fresh_lookup_zero_tag [OF assms(1) t0])
  then have "access cfg clk (initial cfg) a = Inr ((initial cfg)\<lparr>hits := 1, ticks := 1\<rparr>)"
    by (simp add: access_def initial_def)
  moreover have "in_cache cfg (fresh_cache cfg) (line_from_address cfg now a)"
    by (rule fresh_lookup_zero_tag [OF assms])
  ultimately show ?thesis by (simp add: initial_def)
qed

theorem fresh_cache_zero_tag_hits_witness:
  "config_ok example_config \<and> tag (line_from_address example_config 5 0xFF) = 0
     \<and> in_cache example_config (fresh_cache example_config) (line_from_address example_config 5 0xFF)
     \<and> access example_config (\<lambda>k. 5) (initial example_config) 0xFF
          = Inr ((initial example_config)\<lparr>hits := 1, ticks := 1\<rparr>)"
proof -
  have c: "config_ok example_config" by (simp add: config_ok_def example_config_def)
  have t: "tag (line_from_address example_config 5 0xFF) = 0"
    by (simp add: line_from_address_def example_config_def)
  show ?thesis
    using c t fresh_cache_zero_tag_hits [OF c t, of "\<lambda>k. 5"] by simp
qed

text \<open>
  Claim C1. With block size 128, 2 sets, associativity 4 and no prefetching, the trace
  that reads address 0 twice ends with 2 hits and 0 misses, whatever the clock: the first
  access already matches the zero tag of a line that was never filled.
\<close>

theorem scenario_two_accesses:
  "execute_mem example_config clk [rd 0, rd 0] = Inr (2, 0)"
  by (simp add: execute_mem_def initial_def fresh_cache_def example_config_def rd_def
      access_def in_cache_def line_from_address_def zero_line_def numeral_eq_Suc)

section \<open>The driver: the claims\<close>

text \<open>
  Claim C9. An access that hits returns a state with the same cache; the hit counter is
  one higher and the miss counter is the same.
\<close>

theorem hit_leaves_store:
  assumes "in_cache cfg (store s) (line_from_address cfg (clk (ticks s)) a)"
  shows "\<exists>s'. access cfg clk s a = Inr s' \<and> store s' = store s
            \<and> hits s' = hits s + 1 \<and> misses s' = misses s"
  using assms by (simp add: access_def)

theorem hit_leaves_store_witness:
  "in_cache example_config (store warm)
      (line_from_address example_config ((\<lambda>k. 9) (ticks warm)) 0x17F)
   \<and> (\<exists>s'. access example_config (\<lambda>k. 9) warm 0x17F = Inr s' \<and> store s' = store warm
          \<and> hits s' = 1 \<and> misses s' = 1)"
proof -
  have h: "in_cache example_config (store warm)
      (line_from_address example_config ((\<lambda>k. 9) (ticks warm)) 0x17F)"
    by (simp add: in_cache_def warm_def line_from_address_def example_config_def
        int_mask_def drop_bit_eq_div)
  from hit_leaves_store [OF h] h show ?thesis by (simp add: warm_def)
qed

text \<open>
  The loop body on a miss with prefetching on, when the insertion of the missed line
  gives the cache \<open>c1\<close>: what happens next is decided by what \<^verbatim>\<open>in_cache\<close> answers
  for the line of \<open>a + BLOCKS_SIZE\<close> in \<open>c1\<close>.
\<close>

lemma access_with_prefetch:
  assumes "PREFETCHING cfg"
    and "l = line_from_address cfg (clk (ticks s)) a"
    and "nxt = line_from_address cfg (clk (ticks s + 2)) (a + of_nat (BLOCKS_SIZE cfg))"
    and "\<not> in_cache cfg (store s) l"
    and "add_to_cache cfg (clk (ticks s + 1)) (store s) l = Inr c1"
  shows "(in_cache cfg c1 nxt \<longrightarrow>
            access cfg clk s a
              = Inr (s\<lparr>store := c1, misses := misses s + 1, ticks := ticks s + 3\<rparr>))
       \<and> (\<not> in_cache cfg c1 nxt \<longrightarrow>
            (\<forall>c2. add_to_cache cfg (clk (ticks s + 3)) c1 nxt = Inr c2 \<longrightarrow>
               access cfg clk s a
                 = Inr (s\<lparr>store := c2, misses := misses s + 2, ticks := ticks s + 4\<rparr>)))"
  using assms by (simp add: access_def)

text \<open>
  Claim C5. After a miss on \<open>A\<close> with prefetching on, the block \<open>A + BLOCKS_SIZE\<close> is to be
  inserted and counted as one more miss when it is absent. The code does not do so when
  that block has tag 0 and its set still holds a line that was never filled. With the
  example configuration and the trace \<^verbatim>\<open>0x180, 0x100, 0x280, 0x380, 0x0\<close>, the first
  four records lead to the state \<^const>\<open>before_zero\<close>; the access to \<^verbatim>\<open>0x0\<close> then
  misses and is inserted, the lookup of \<^verbatim>\<open>0x80\<close>, which no record or prefetch has
  touched, answers 1 on the unfilled last line of set 1, set 1 is left as it was and the
  run ends with 8 misses where the claim has 9. The one-record trace
  \<^verbatim>\<open>0xFFFFFFFFFFFFFF80\<close>, whose next block is address 0, ends with 1 miss and set 0
  as allocated.
\<close>

theorem prefetch_skips_unfilled_target:
  "replay prefetch_config (\<lambda>k. int k) (initial prefetch_config)
       [rd 0x180, rd 0x100, rd 0x280, rd 0x380] = Inr before_zero
   \<and> \<not> in_cache prefetch_config (store before_zero)
         (line_from_address prefetch_config 15 0x0)
   \<and> access prefetch_config (\<lambda>k. int k) before_zero 0x0
       = Inr \<lparr> store = [(store before_zero ! 0)[0 := line_from_address prefetch_config 15 0x0],
                        store before_zero ! 1],
               hits = 0, misses = 8, ticks = 18 \<rparr>
   \<and> execute_mem prefetch_config (\<lambda>k. int k)
       [rd 0x180, rd 0x100, rd 0x280, rd 0x380, rd 0x0] = Inr (0, 8)
   \<and> replay prefetch_config (\<lambda>k. 5) (initial prefetch_config) [rd 0xFFFFFFFFFFFFFF80]
       = Inr \<lparr> store = [replicate 4 zero_line,
                        [line_from_address prefetch_config 5 0xFFFFFFFFFFFFFF80,
                         zero_line, zero_line, zero_line]],
               hits = 0, misses = 1, ticks = 3 \<rparr>"
  by code_simp

lemma access_counts:
  assumes "\<not> PREFETCHING cfg" and "access cfg clk s a = Inr s'"
  shows "(hits s' = hits s + 1 \<and> misses s' = misses s)
       \<or> (hits s' = hits s \<and> misses s' = misses s + 1)"
  using assms by (auto simp add: access_def Let_def split: if_splits sum.splits)

lemma unat_succ32: "unat (x :: 32 word) + 1 < 2 ^ 32 \<Longrightarrow> unat (x + 1) = unat x + 1"
  using unat_add_lem [of x 1] by simp

lemma access_counts_nat:
  assumes "\<not> PREFETCHING cfg" and "access cfg clk s a = Inr s'"
    and "unat (hits s) + unat (misses s) + 1 < 2 ^ 32"
  shows "unat (hits s') + unat (misses s') = unat (hits s) + unat (misses s) + 1"
proof -
  from assms(3) have h: "unat (hits s) + 1 < 2 ^ 32" and m: "unat (misses s) + 1 < 2 ^ 32"
    by simp_all
  from access_counts [OF assms(1,2)] show ?thesis
    using unat_succ32 [OF h] unat_succ32 [OF m] by auto
qed

lemma replay_counts_nat:
  assumes "\<not> PREFETCHING cfg"
  shows "replay cfg clk s rs = Inr s' \<Longrightarrow>
         unat (hits s) + unat (misses s) + length (processed rs) < 2 ^ 32 \<Longrightarrow>
         unat (hits s') + unat (misses s')
           = unat (hits s) + unat (misses s) + length (processed rs)"
proof (induction rs arbitrary: s)
  case Nil
  then show ?case by (simp add: processed_def)
next
  case (Cons r rs)
  show ?case
  proof (cases "rw r = CHR 0x00")
    case True
    with Cons.prems show ?thesis by (simp add: processed_def)
  next
    case False
    with Cons.prems(1) obtain s1 where a: "access cfg clk s (address r) = Inr s1"
      and r: "replay cfg clk s1 rs = Inr s'"
      by (auto split: sum.splits)
    from False have len: "length (processed (r # rs)) = Suc (length (processed rs))"
      by (simp add: processed_def)
    from Cons.prems(2) len have b: "unat (hits s) + unat (misses s) + 1 < 2 ^ 32" by simp
    have s1: "unat (hits s1) + unat (misses s1) = unat (hits s) + unat (misses s) + 1"
      by (rule access_counts_nat [OF assms a b])
    with Cons.prems(2) len
    have "unat (hits s1) + unat (misses s1) + length (processed rs) < 2 ^ 32" by simp
    from Cons.IH [OF r this] s1 len show ?thesis by simp
  qed
qed

lemma replay_counts_word:
  assumes "\<not> PREFETCHING cfg"
  shows "replay cfg clk s rs = Inr s' \<Longrightarrow>
         hits s' + misses s' = hits s + misses s + of_nat (length (processed rs))"
proof (induction rs arbitrary: s)
  case Nil
  then show ?case by (simp add: processed_def)
next
  case (Cons r rs)
  show ?case
  proof (cases "rw r = CHR 0x00")
    case True
    with Cons.prems show ?thesis by (simp add: processed_def)
  next
    case False
    with Cons.prems(1) obtain s1 where a: "access cfg clk s (address r) = Inr s1"
      and r: "replay cfg clk s1 rs = Inr s'"
      by (auto split: sum.splits)
    from False have len: "length (processed (r # rs)) = Suc (length (processed rs))"
      by (simp add: processed_def)
    from access_counts [OF assms a] have "hits s1 + misses s1 = hits s + misses s + 1"
      by auto
    with Cons.IH [OF r] len show ?thesis by simp
  qed
qed

text \<open>
  Claim C10. Without prefetching, every access that returns has raised exactly one of the
  two counters by one, and when \<^verbatim>\<open>execute_mem\<close> returns, hits + misses is the number
  of records processed: as 32-bit counters always, and as numbers when fewer than
  \<open>2 ^ 32\<close> records were processed.
\<close>

theorem counters_sum_to_records:
  assumes "\<not> PREFETCHING cfg"
  shows "(\<forall>s a s'. access cfg clk s a = Inr s' \<longrightarrow>
            (hits s' = hits s + 1 \<and> misses s' = misses s)
          \<or> (hits s' = hits s \<and> misses s' = misses s + 1))
       \<and> (\<forall>h m. execute_mem cfg clk actions = Inr (h, m) \<longrightarrow>
            h + m = of_nat (length (processed actions))
          \<and> (length (processed actions) < 2 ^ 32 \<longrightarrow>
               unat h + unat m = length (processed actions)))"
proof -
  have step: "\<forall>s a s'. access cfg clk s a = Inr s' \<longrightarrow>
            (hits s' = hits s + 1 \<and> misses s' = misses s)
          \<or> (hits s' = hits s \<and> misses s' = misses s + 1)"
    using access_counts [OF assms] by blast
  have total: "h + m = of_nat (length (processed actions))
          \<and> (length (processed actions) < 2 ^ 32 \<longrightarrow>
               unat h + unat m = length (processed actions))"
    if e: "execute_mem cfg clk actions = Inr (h, m)" for h m
  proof -
    from e obtain s' where r: "replay cfg clk (initial cfg) actions = Inr s'"
      and h: "h = hits s'" and m: "m = misses s'"
      by (auto simp add: execute_mem_def split: sum.splits)
    have w: "h + m = of_nat (length (processed actions))"
      using replay_counts_word [OF assms r] by (simp add: h m initial_def)
    have n: "unat h + unat m = length (processed actions)"
      if "length (processed actions) < 2 ^ 32"
      using replay_counts_nat [OF assms r] that by (simp add: h m initial_def)
    from w n show ?thesis by simp
  qed
  from step total show ?thesis by blast
qed

theorem counters_sum_to_records_witness:
  "\<not> PREFETCHING example_config
   \<and> execute_mem example_config (\<lambda>k. int k) [rd 0x100, rd 0x200, rd 0x100] = Inr (1, 2)
   \<and> unat (1 :: 32 word) + unat (2 :: 32 word) = length (processed [rd 0x100, rd 0x200, rd 0x100])"
proof -
  have p: "\<not> PREFETCHING example_config" by (simp add: example_config_def)
  have e: "execute_mem example_config (\<lambda>k. int k) [rd 0x100, rd 0x200, rd 0x100] = Inr (1, 2)"
    by code_simp
  have l: "length (processed [rd 0x100, rd 0x200, rd 0x100]) < 2 ^ 32"
    by (simp add: processed_def rd_def)
  from counters_sum_to_records [OF p, of "\<lambda>k. int k" "[rd 0x100, rd 0x200, rd 0x100]"] e l p
  show ?thesis by simp
qed

section \<open>The wall clock: the claims\<close>

lemma access_clock_cong:
  assumes "\<forall>k. ticks s \<le> k \<and> k < ticks s + 4 \<longrightarrow> clk1 k = clk2 k"
  shows "access cfg clk1 s a = access cfg clk2 s a"
proof -
  from assms have h: "clk1 (ticks s) = clk2 (ticks s)"
    "clk1 (ticks s + 1) = clk2 (ticks s + 1)"
    "clk1 (ticks s + 2) = clk2 (ticks s + 2)"
    "clk1 (ticks s + 3) = clk2 (ticks s + 3)"
    by simp_all
  show ?thesis by (simp only: access_def h)
qed

lemma access_ticks:
  assumes "access cfg clk s a = Inr s'"
  shows "ticks s \<le> ticks s' \<and> ticks s' \<le> ticks s + 4"
  using assms by (auto simp add: access_def Let_def split: if_splits sum.splits)

lemma replay_clock_cong:
  "\<forall>k. ticks s \<le> k \<and> k < ticks s + 4 * length (processed rs) \<longrightarrow> clk1 k = clk2 k \<Longrightarrow>
   replay cfg clk1 s rs = replay cfg clk2 s rs"
proof (induction rs arbitrary: s)
  case Nil
  show ?case by simp
next
  case (Cons r rs)
  show ?case
  proof (cases "rw r = CHR 0x00")
    case True
    then show ?thesis by simp
  next
    case False
    then have len: "length (processed (r # rs)) = Suc (length (processed rs))"
      by (simp add: processed_def)
    from Cons.prems len
    have "\<forall>k. ticks s \<le> k \<and> k < ticks s + 4 \<longrightarrow> clk1 k = clk2 k" by simp
    then have a: "access cfg clk1 s (address r) = access cfg clk2 s (address r)"
      by (rule access_clock_cong)
    show ?thesis
    proof (cases "access cfg clk2 s (address r)")
      case (Inl e)
      with a False show ?thesis by simp
    next
      case (Inr s1)
      from access_ticks [OF Inr] have t: "ticks s \<le> ticks s1" "ticks s1 \<le> ticks s + 4"
        by simp_all
      have "\<forall>k. ticks s1 \<le> k \<and> k < ticks s1 + 4 * length (processed rs) \<longrightarrow> clk1 k = clk2 k"
        using Cons.prems len t by simp
      from Cons.IH [OF this] a Inr False show ?thesis by simp
    qed
  qed
qed

text \<open>
  Claim C6, as stated, fails. The recency of a line is the value of \<^verbatim>\<open>time(NULL)\<close>, in
  seconds, not a logical counter. The same configuration and the same seven records give
  0 hits and 7 misses when every call of the clock returns a later second, and 1 hit and
  6 misses when the run crosses two second boundaries only.
\<close>

theorem counts_not_determined_by_trace:
  "execute_mem example_config (\<lambda>k. int k)
      [rd 0x100, rd 0x200, rd 0x300, rd 0x400, rd 0x500, rd 0x600, rd 0x200] = Inr (0, 7)
   \<and> execute_mem example_config (\<lambda>k. if k < 2 then 1 else if k < 9 then 2 else 3)
      [rd 0x100, rd 0x200, rd 0x300, rd 0x400, rd 0x500, rd 0x600, rd 0x200] = Inr (1, 6)"
  by code_simp

text \<open>
  Claim C6, amended. For a run in which \<^verbatim>\<open>add_to_cache\<close> never uses \<^verbatim>\<open>oldest\<close>
  without a value (the run is \<open>Inr\<close>), the counts are a function of the configuration,
  the trace and the values the clock returns: every run on the same configuration and
  trace whose clock agrees with it on the first 4 readings per processed record is such a
  run too and ends with the same hits and misses. Nothing is said of the other runs, whose
  behaviour is undefined.
\<close>

theorem counts_depend_on_clock_readings:
  assumes "\<forall>k < 4 * length (processed actions). clk1 k = clk2 k"
    and "execute_mem cfg clk1 actions = Inr r"
  shows "execute_mem cfg clk2 actions = Inr r"
proof -
  have "replay cfg clk1 (initial cfg) actions = replay cfg clk2 (initial cfg) actions"
    by (rule replay_clock_cong) (use assms(1) in \<open>simp add: initial_def\<close>)
  with assms(2) show ?thesis by (simp add: execute_mem_def)
qed

theorem counts_depend_on_clock_readings_witness:
  "execute_mem example_config (\<lambda>k. int k) [rd 0x100, rd 0x200, rd 0x100] = Inr (1, 2)
   \<and> execute_mem example_config (\<lambda>k. if k < 100 then int k else 0)
        [rd 0x100, rd 0x200, rd 0x100] = Inr (1, 2)"
proof -
  have a: "\<forall>k < 4 * length (processed [rd 0x100, rd 0x200, rd 0x100]).
       (\<lambda>k. int k) k = (\<lambda>k. if k < 100 then int k else 0) k"
    by (simp add: processed_def rd_def)
  have e: "execute_mem example_config (\<lambda>k. int k) [rd 0x100, rd 0x200, rd 0x100] = Inr (1, 2)"
    by code_simp
  from e counts_depend_on_clock_readings [OF a e] show ?thesis by (rule conjI)
qed

section \<open>Eviction: the claims\<close>

lemma find_slot_full:
  assumes "\<forall>x \<in> set xs. tag x \<noteq> 0"
  shows "(find_slot xs i old ot = old \<and> (\<forall>x \<in> set xs. ot \<le> last_access x))
       \<or> (\<exists>j < length xs. find_slot xs i old ot = Some (i + j)
             \<and> last_access (xs ! j) < ot
             \<and> (\<forall>k < length xs. last_access (xs ! j) \<le> last_access (xs ! k))
             \<and> (\<forall>k < j. last_access (xs ! j) < last_access (xs ! k)))"
  using assms
proof (induction xs arbitrary: i old ot)
  case Nil
  show ?case by simp
next
  case (Cons x xs)
  then have nz: "tag x \<noteq> 0" and rest: "\<forall>y \<in> set xs. tag y \<noteq> 0" by simp_all
  show ?case
  proof (cases "last_access x < ot")
    case True
    from Cons.IH [OF rest, of "Suc i" "Some i" "last_access x"]
    show ?thesis
    proof
      assume h: "find_slot xs (Suc i) (Some i) (last_access x) = Some i
          \<and> (\<forall>y \<in> set xs. last_access x \<le> last_access y)"
      have "0 < length (x # xs) \<and> find_slot (x # xs) i old ot = Some (i + 0)
             \<and> last_access ((x # xs) ! 0) < ot
             \<and> (\<forall>k < length (x # xs). last_access ((x # xs) ! 0) \<le> last_access ((x # xs) ! k))
             \<and> (\<forall>k < 0. last_access ((x # xs) ! 0) < last_access ((x # xs) ! k))"
        using h nz True by (auto simp add: nth_Cons')
      then show ?thesis by blast
    next
      assume "\<exists>j < length xs. find_slot xs (Suc i) (Some i) (last_access x) = Some (Suc i + j)
             \<and> last_access (xs ! j) < last_access x
             \<and> (\<forall>k < length xs. last_access (xs ! j) \<le> last_access (xs ! k))
             \<and> (\<forall>k < j. last_access (xs ! j) < last_access (xs ! k))"
      then obtain j where j: "j < length xs"
        and f: "find_slot xs (Suc i) (Some i) (last_access x) = Some (Suc i + j)"
        and lt: "last_access (xs ! j) < last_access x"
        and mn: "\<forall>k < length xs. last_access (xs ! j) \<le> last_access (xs ! k)"
        and st: "\<forall>k < j. last_access (xs ! j) < last_access (xs ! k)"
        by blast
      have "Suc j < length (x # xs) \<and> find_slot (x # xs) i old ot = Some (i + Suc j)
             \<and> last_access ((x # xs) ! Suc j) < ot
             \<and> (\<forall>k < length (x # xs).
                   last_access ((x # xs) ! Suc j) \<le> last_access ((x # xs) ! k))
             \<and> (\<forall>k < Suc j. last_access ((x # xs) ! Suc j) < last_access ((x # xs) ! k))"
        using j f lt mn st nz True by (auto simp add: nth_Cons' less_Suc_eq_0_disj)
      then show ?thesis by blast
    qed
  next
    case False
    from Cons.IH [OF rest, of "Suc i" old ot]
    show ?thesis
    proof
      assume "find_slot xs (Suc i) old ot = old \<and> (\<forall>y \<in> set xs. ot \<le> last_access y)"
      with nz False show ?thesis by simp
    next
      assume "\<exists>j < length xs. find_slot xs (Suc i) old ot = Some (Suc i + j)
             \<and> last_access (xs ! j) < ot
             \<and> (\<forall>k < length xs. last_access (xs ! j) \<le> last_access (xs ! k))
             \<and> (\<forall>k < j. last_access (xs ! j) < last_access (xs ! k))"
      then obtain j where j: "j < length xs"
        and f: "find_slot xs (Suc i) old ot = Some (Suc i + j)"
        and lt: "last_access (xs ! j) < ot"
        and mn: "\<forall>k < length xs. last_access (xs ! j) \<le> last_access (xs ! k)"
        and st: "\<forall>k < j. last_access (xs ! j) < last_access (xs ! k)"
        by blast
      have "Suc j < length (x # xs) \<and> find_slot (x # xs) i old ot = Some (i + Suc j)
             \<and> last_access ((x # xs) ! Suc j) < ot
             \<and> (\<forall>k < length (x # xs).
                   last_access ((x # xs) ! Suc j) \<le> last_access ((x # xs) ! k))
             \<and> (\<forall>k < Suc j. last_access ((x # xs) ! Suc j) < last_access ((x # xs) ! k))"
        using j f lt mn st nz False by (auto simp add: nth_Cons' less_Suc_eq_0_disj)
      then show ?thesis by blast
    qed
  qed
qed

lemma take_all_nth:
  "n \<le> length s \<Longrightarrow> (\<forall>x \<in> set (take n s). P x) \<longleftrightarrow> (\<forall>i < n. P (s ! i))"
  by (simp add: all_set_conv_all_nth)

text \<open>
  Where the addressed set is full (no line of it has tag zero) and at least one of its
  lines has a \<^verbatim>\<open>last_access\<close> earlier than the time read at the insertion,
  \<^verbatim>\<open>add_to_cache\<close> overwrites the line with the smallest \<^verbatim>\<open>last_access\<close>, and
  among equals the one at the lowest position.
\<close>

lemma eviction_picks_oldest:
  assumes "s = c ! unat (index l)"
    and "unat (index l) < length c"
    and "ASSOCIATIVITY cfg \<le> length s"
    and "\<forall>i < ASSOCIATIVITY cfg. tag (s ! i) \<noteq> 0"
    and "\<exists>i < ASSOCIATIVITY cfg. last_access (s ! i) < now"
  shows "\<exists>j < ASSOCIATIVITY cfg.
           add_to_cache cfg now c l = Inr (c[unat (index l) := s[j := l]])
         \<and> (\<forall>k < ASSOCIATIVITY cfg. last_access (s ! j) \<le> last_access (s ! k))
         \<and> (\<forall>k < j. last_access (s ! j) < last_access (s ! k))"
proof -
  let ?xs = "take (ASSOCIATIVITY cfg) s"
  from assms(3) have len: "length ?xs = ASSOCIATIVITY cfg" by simp
  have full: "\<forall>x \<in> set ?xs. tag x \<noteq> 0"
    using assms(4) by (simp only: take_all_nth [OF assms(3)])
  have older: "\<not> (\<forall>x \<in> set ?xs. now \<le> last_access x)"
    using assms(5) by (simp only: take_all_nth [OF assms(3)]) (simp add: not_le)
  from find_slot_full [OF full, of 0 None now] older
  obtain j where j: "j < length ?xs" and f: "find_slot ?xs 0 None now = Some (0 + j)"
    and mn: "\<forall>k < length ?xs. last_access (?xs ! j) \<le> last_access (?xs ! k)"
    and st: "\<forall>k < j. last_access (?xs ! j) < last_access (?xs ! k)"
    by blast
  from j len have jA: "j < ASSOCIATIVITY cfg" by simp
  have "add_to_cache cfg now c l = Inr (c[unat (index l) := s[j := l]])"
    using f by (simp add: add_to_cache_def assms(1))
  moreover have "\<forall>k < ASSOCIATIVITY cfg. last_access (s ! j) \<le> last_access (s ! k)"
    using mn len jA by simp
  moreover have "\<forall>k < j. last_access (s ! j) < last_access (s ! k)"
    using st jA by simp
  ultimately show ?thesis using jA by blast
qed

text \<open>
  Where the set is full and no line is earlier than the time read at the insertion,
  \<^verbatim>\<open>oldest\<close> is used without a value.
\<close>

lemma eviction_undefined:
  assumes "s = c ! unat (index l)"
    and "ASSOCIATIVITY cfg \<le> length s"
    and "\<forall>i < ASSOCIATIVITY cfg. tag (s ! i) \<noteq> 0"
    and "\<forall>i < ASSOCIATIVITY cfg. now \<le> last_access (s ! i)"
  shows "add_to_cache cfg now c l = Inl Uninitialised_oldest"
proof -
  let ?xs = "take (ASSOCIATIVITY cfg) s"
  have full: "\<forall>x \<in> set ?xs. tag x \<noteq> 0"
    using assms(3) by (simp only: take_all_nth [OF assms(2)])
  have late: "\<forall>x \<in> set ?xs. now \<le> last_access x"
    using assms(4) by (simp only: take_all_nth [OF assms(2)])
  have "find_slot ?xs 0 None now = None"
  proof (rule disjE [OF find_slot_full [OF full, of 0 None now]])
    assume "find_slot ?xs 0 None now = None \<and> (\<forall>x \<in> set ?xs. now \<le> last_access x)"
    then show ?thesis by simp
  next
    assume "\<exists>j < length ?xs. find_slot ?xs 0 None now = Some (0 + j)
             \<and> last_access (?xs ! j) < now
             \<and> (\<forall>k < length ?xs. last_access (?xs ! j) \<le> last_access (?xs ! k))
             \<and> (\<forall>k < j. last_access (?xs ! j) < last_access (?xs ! k))"
    then obtain j where "j < length ?xs" "last_access (?xs ! j) < now" by blast
    moreover from this(1) have "?xs ! j \<in> set ?xs" by (rule nth_mem)
    ultimately show ?thesis using late by fastforce
  qed
  then show ?thesis by (simp add: add_to_cache_def assms(1))
qed

text \<open>
  Claim C4. The victim of an eviction is to be the line with the smallest
  \<^verbatim>\<open>last_access\<close>, the lowest position among equals, for every full set. The code
  says as much (\<^verbatim>\<open>swap the oldest one by this one\<close>) and does it wherever a line is
  older than the time it reads first, but \<^verbatim>\<open>oldest\<close> is declared without a value
  (line 149) and only receives one inside the loop. On a full set whose four lines all
  carry the second in which the insertion runs, where the victim should be position 0,
  line 168 indexes the set with the uninitialised \<^verbatim>\<open>oldest\<close>; five misses on one set
  within one second reach that state.
\<close>

theorem eviction_uses_uninitialised_oldest:
  "add_to_cache example_config 1000 [full_set, replicate 4 zero_line]
      (line_from_address example_config 1000 0x500) = Inl Uninitialised_oldest
   \<and> execute_mem example_config (\<lambda>k. 1000)
      [rd 0x100, rd 0x200, rd 0x300, rd 0x400, rd 0x500] = Inl Uninitialised_oldest"
  by code_simp

end
